theory Spec2Isabelle
  imports Main
begin

section \<open>The Sink and the stream classes of Core/Stream.hpp\<close>

text \<open>
  Modelled from the spec: \<open>Byte\<close> (Core/Bytes.hpp is not part of the sources).
  \<open>OStream::Char_\<close> is an 8-bit unit; a span of bytes is a list of them.
\<close>

type_synonym byte = char

text \<open>
  Modelled from the spec: \<open>sys::IODevice\<close> (Sys/IODevice.hpp is not part of the sources).
  The Sink is an opaque handle that accepts \<open>write(bytes)\<close> and a synchronize request
  (\<open>flush_handle\<close>), both fire-and-forget. The model records, in order, each call the
  Sink receives, so that an observer of the Sink reads the list from left to right.
\<close>

datatype sink_event = SinkWrite "byte list" | SinkSync

type_synonym IODevice = "sink_event list"

definition IODevice_write :: "IODevice \<Rightarrow> byte list \<Rightarrow> IODevice" where
  "IODevice_write fd bytes = fd @ [SinkWrite bytes]"

definition flush_handle :: "IODevice \<Rightarrow> IODevice" where
  "flush_handle fd = fd @ [SinkSync]"

text \<open>The byte sequence the Sink has observed: its writes, concatenated in order.\<close>

fun sink_bytes :: "IODevice \<Rightarrow> byte list" where
  "sink_bytes [] = []"
| "sink_bytes (SinkWrite bytes # fd) = bytes @ sink_bytes fd"
| "sink_bytes (SinkSync # fd) = sink_bytes fd"

text \<open>The \<open>SinkWrite\<close> calls the Sink has received, in order.\<close>

fun sink_writes :: "IODevice \<Rightarrow> byte list list" where
  "sink_writes [] = []"
| "sink_writes (SinkWrite bytes # fd) = bytes # sink_writes fd"
| "sink_writes (SinkSync # fd) = sink_writes fd"

text \<open>
  Modelled from the spec: the \<open>ASSERT\<close> macro (Core/Platform.hpp is not part of the
  sources). A violated buffer invariant is a programming error that triggers an
  unconditional abort; the model returns \<open>Inl AssertFailed\<close> in place of the new state.
\<close>

datatype abort = AssertFailed

text \<open>
  \<open>size_t\<close> arithmetic is unsigned and wraps; the width is taken as 64 bits.
\<close>

definition SIZE_MOD :: nat where
  "SIZE_MOD = 2 ^ 64"

definition size_t_sub :: "nat \<Rightarrow> nat \<Rightarrow> nat" where
  "size_t_sub a b = (a + SIZE_MOD - b) mod SIZE_MOD"

definition size_t_add :: "nat \<Rightarrow> nat \<Rightarrow> nat" where
  "size_t_add a b = (a + b) mod SIZE_MOD"

subsection \<open>class OStream\<close>

record OStream =
  fd :: IODevice

definition OStream_write :: "OStream \<Rightarrow> byte list \<Rightarrow> OStream" where
  "OStream_write s span = s\<lparr>fd := IODevice_write (fd s) span\<rparr>"

definition OStream_flush :: "OStream \<Rightarrow> OStream" where
  "OStream_flush s = s\<lparr>fd := flush_handle (fd s)\<rparr>"

subsection \<open>class BufferedOStream<size_>\<close>

text \<open>
  The template parameter \<open>size_\<close> (\<open>len_\<close>) is the first argument \<open>N\<close> of every member
  function. The fields \<open>fd\<close>, \<open>buff\<close> and \<open>curr\<close> are the members \<open>fd_\<close>, \<open>buff_\<close> (the array
  of \<open>len_\<close> bytes) and \<open>curr_\<close> (the cursor); the span argument \<open>buff\<close> of the source is
  called \<open>span\<close>.
\<close>

record BufferedOStream = OStream +
  buff :: "byte list"
  curr :: nat

text \<open>Default construction: \<open>buff_{}\<close> is zero-filled, \<open>curr_\<close> is \<open>begin_ = 0\<close>.\<close>

definition BufferedOStream_from :: "nat \<Rightarrow> IODevice \<Rightarrow> BufferedOStream" where
  "BufferedOStream_from N dev = \<lparr>fd = dev, buff = replicate N (CHR 0x00), curr = 0\<rparr>"

definition to_buffer :: "nat \<Rightarrow> BufferedOStream \<Rightarrow> byte list \<Rightarrow> abort + BufferedOStream" where
  "to_buffer N s span =
     (if \<not> curr s \<le> N then Inl AssertFailed
      else if \<not> length span \<le> size_t_sub N (curr s) then Inl AssertFailed
      else if \<not> length span \<noteq> 0 then Inl AssertFailed
      else Inr (s\<lparr>buff := take (curr s) (buff s) @ span
                              @ drop (curr s + length span) (buff s),
                   curr := size_t_add (curr s) (length span)\<rparr>))"

definition BufferedOStream_flush :: "nat \<Rightarrow> BufferedOStream \<Rightarrow> abort + BufferedOStream" where
  "BufferedOStream_flush N s =
     (if \<not> curr s \<le> N then Inl AssertFailed
      else
        let s1 = (if curr s > 0
                  then s\<lparr>fd := IODevice_write (fd s) (take (curr s) (buff s)),
                         curr := 0\<rparr>
                  else s)
        in Inr (s1\<lparr>fd := flush_handle (fd s1)\<rparr>))"

definition BufferedOStream_write :: "nat \<Rightarrow> BufferedOStream \<Rightarrow> byte list \<Rightarrow> abort + BufferedOStream" where
  "BufferedOStream_write N s span =
     (let remaining = size_t_sub N (curr s);
          size_new = length span;
          no_space = (remaining < size_new)
      in if span = [] then Inr s
         else if size_new > N then
           (case BufferedOStream_flush N s of
              Inl e \<Rightarrow> Inl e
            | Inr s1 \<Rightarrow> Inr (s1\<lparr>fd := IODevice_write (fd s1) span\<rparr>))
         else if no_space then
           (case BufferedOStream_flush N s of
              Inl e \<Rightarrow> Inl e
            | Inr s1 \<Rightarrow> to_buffer N s1 span)
         else to_buffer N s span)"

text \<open>A sequence of calls on one buffered stream; an abort ends it.\<close>

datatype call = Write "byte list" | Flush

fun do_call :: "nat \<Rightarrow> BufferedOStream \<Rightarrow> call \<Rightarrow> abort + BufferedOStream" where
  "do_call N s (Write span) = BufferedOStream_write N s span"
| "do_call N s Flush = BufferedOStream_flush N s"

fun do_calls :: "nat \<Rightarrow> BufferedOStream \<Rightarrow> call list \<Rightarrow> abort + BufferedOStream" where
  "do_calls N s [] = Inr s"
| "do_calls N s (c # cs) =
     (case do_call N s c of Inl e \<Rightarrow> Inl e | Inr s1 \<Rightarrow> do_calls N s1 cs)"

text \<open>
  The state of a \<open>BufferedOStream<N>\<close> as its member functions expect it: \<open>len_\<close> is a
  \<open>size_t\<close>, the array has \<open>len_\<close> bytes, and the cursor is within \<open>[0, len_]\<close>.
\<close>

definition buffer_inv :: "nat \<Rightarrow> BufferedOStream \<Rightarrow> bool" where
  "buffer_inv N s = (N < SIZE_MOD \<and> length (buff s) = N \<and> curr s \<le> N)"

text \<open>
  The spec's notion for the buffer invariant: the byte spans accepted into the buffer since
  the last flush, in order, after a history of calls. A flush (explicit, or the one a
  write performs before a bypass or when the free space is too small) empties the list;
  an empty span is not accepted; a span larger than \<open>N\<close> bypasses the buffer.
\<close>

fun accepted_after :: "nat \<Rightarrow> byte list list \<Rightarrow> call \<Rightarrow> byte list list" where
  "accepted_after N acc Flush = []"
| "accepted_after N acc (Write span) =
     (if span = [] then acc
      else if length span > N then []
      else if N - length (concat acc) < length span then [span]
      else acc @ [span])"

definition accepted :: "nat \<Rightarrow> call list \<Rightarrow> byte list list" where
  "accepted N cs = foldl (accepted_after N) [] cs"

text \<open>The byte spans handed to \<open>write\<close> in a history of calls, in order.\<close>

fun written :: "call list \<Rightarrow> byte list list" where
  "written [] = []"
| "written (Write span # cs) = span # written cs"
| "written (Flush # cs) = written cs"

text \<open>
  \<open>~BufferedOStream\<close> and \<open>~OStream\<close> are defaulted: no statement runs, the members are
  released. The result is the Sink as an observer finds it afterwards.
\<close>

definition OStream_dtor :: "'a OStream_scheme \<Rightarrow> IODevice" where
  "OStream_dtor s = fd s"

definition BufferedOStream_dtor :: "BufferedOStream \<Rightarrow> IODevice" where
  "BufferedOStream_dtor s = OStream_dtor s"

subsection \<open>class NullOStream and virtual dispatch\<close>

definition NullOStream_write :: "OStream \<Rightarrow> byte list \<Rightarrow> OStream" where
  "NullOStream_write s span = s"

definition NullOStream_flush :: "OStream \<Rightarrow> OStream" where
  "NullOStream_flush s = s"

text \<open>
  An \<open>OStream&\<close> refers to an object of one of the three classes of the file; the virtual
  calls \<open>write\<close> and \<open>flush\<close> select the override of the object's class.
\<close>

datatype ostream =
    Plain OStream
  | Buffered nat BufferedOStream
  | Null OStream

fun virtual_write :: "ostream \<Rightarrow> byte list \<Rightarrow> abort + ostream" where
  "virtual_write (Plain s) span = Inr (Plain (OStream_write s span))"
| "virtual_write (Buffered N s) span =
     (case BufferedOStream_write N s span of Inl e \<Rightarrow> Inl e | Inr s1 \<Rightarrow> Inr (Buffered N s1))"
| "virtual_write (Null s) span = Inr (Null (NullOStream_write s span))"

fun virtual_flush :: "ostream \<Rightarrow> abort + ostream" where
  "virtual_flush (Plain s) = Inr (Plain (OStream_flush s))"
| "virtual_flush (Buffered N s) =
     (case BufferedOStream_flush N s of Inl e \<Rightarrow> Inl e | Inr s1 \<Rightarrow> Inr (Buffered N s1))"
| "virtual_flush (Null s) = Inr (Null (NullOStream_flush s))"

subsection \<open>The formatting operators of OStream\<close>

text \<open>
  \<open>std::string_view\<close> built from a \<open>const char*\<close>: the characters before the first NUL.
\<close>

definition string_view_of_cstr :: "char list \<Rightarrow> string" where
  "string_view_of_cstr mem = takeWhile (\<lambda>c. c \<noteq> CHR 0x00) mem"

text \<open>
  Modelled from the spec: \<open>as_bytes\<close> (Core/Bytes.hpp is not part of the sources). A view
  of 8-bit text is written directly: its bytes are its characters.
\<close>

definition as_bytes :: "string \<Rightarrow> byte list" where
  "as_bytes str = str"

definition shl_string_view :: "ostream \<Rightarrow> string \<Rightarrow> abort + ostream" where
  "shl_string_view s str = (if \<not> str = [] then virtual_write s (as_bytes str) else Inr s)"

text \<open>
  \<open>operator<<(Character)\<close> for the one-byte character type \<open>char\<close> (the concepts of
  Core/Concepts.hpp are not part of the sources): \<open>*this << buffer\<close> passes the array as a
  \<open>const char*\<close>, which selects the \<open>std::string_view\<close> overload.
\<close>

definition shl_Character :: "ostream \<Rightarrow> char \<Rightarrow> abort + ostream" where
  "shl_Character s val =
     (let buffer = [val, CHR 0x00]
      in shl_string_view s (string_view_of_cstr buffer))"

text \<open>
  The same operator for a wider character type \<open>'w\<close> (\<open>wchar_t\<close>), whose NUL is \<open>0\<close>:
  \<open>*this << buffer\<close> selects the \<open>std::wstring_view\<close> overload, modelled in its POSIX
  branch (the \<open>N19_WIN32\<close> branch converts through \<open>WideCharToMultiByte\<close>). The bytes
  \<open>as_bytes\<close> gives for wide text depend on the memory layout of \<open>'w\<close>; the function is the
  argument \<open>as_bytes_w\<close>.
\<close>

definition wstring_view_of_cstr :: "'w::zero list \<Rightarrow> 'w list" where
  "wstring_view_of_cstr mem = takeWhile (\<lambda>c. c \<noteq> 0) mem"

definition shl_wstring_view ::
    "('w list \<Rightarrow> byte list) \<Rightarrow> ostream \<Rightarrow> 'w list \<Rightarrow> abort + ostream" where
  "shl_wstring_view as_bytes_w s str =
     (if \<not> str = [] then virtual_write s (as_bytes_w str) else Inr s)"

definition shl_Character_wide ::
    "('w::zero list \<Rightarrow> byte list) \<Rightarrow> ostream \<Rightarrow> 'w \<Rightarrow> abort + ostream" where
  "shl_Character_wide as_bytes_w s val =
     (let buffer = [val, 0]
      in shl_wstring_view as_bytes_w s (wstring_view_of_cstr buffer))"

text \<open>
  The \<open>std::u8string_view\<close> overload, and \<open>operator<<(Character)\<close> for \<open>char8_t\<close>, which
  selects it. \<open>char8_t\<close> is an 8-bit unit like \<open>char\<close>; a view of it is written as its bytes.
\<close>

definition shl_u8string_view :: "ostream \<Rightarrow> string \<Rightarrow> abort + ostream" where
  "shl_u8string_view s str = (if \<not> str = [] then virtual_write s (as_bytes str) else Inr s)"

definition shl_Character_u8 :: "ostream \<Rightarrow> char \<Rightarrow> abort + ostream" where
  "shl_Character_u8 s val =
     (let buffer = [val, CHR 0x00]
      in shl_u8string_view s (string_view_of_cstr buffer))"

definition shl_Flush :: "ostream \<Rightarrow> abort + ostream" where
  "shl_Flush s = virtual_flush s"

definition shl_Endl :: "ostream \<Rightarrow> abort + ostream" where
  "shl_Endl s =
     (case shl_Character s (CHR 0x0A) of Inl e \<Rightarrow> Inl e | Inr s1 \<Rightarrow> virtual_flush s1)"

text \<open>
  \<open>std::to_chars\<close> belongs to the C++ standard library. Its result is the pair of the
  buffer as the call leaves it and the error condition \<open>ec\<close>. The operators take the
  overload they call as the argument \<open>to_chars\<close>: the template \<open>operator<<(IntOrFloat)\<close>
  is generic in the value type, whose overload it selects.
\<close>

datatype errc = errc_ok | value_too_large

definition shl_IntOrFloat ::
    "(char list \<Rightarrow> nat \<Rightarrow> 'v \<Rightarrow> char list \<times> errc) \<Rightarrow> ostream \<Rightarrow> 'v \<Rightarrow> abort + ostream" where
  "shl_IntOrFloat to_chars s val =
     (let buff0 = replicate 40 (CHR 0x00);
          (buff1, ec) = to_chars buff0 (40 - 1) val;
          buff2 = buff1[39 := CHR 0x00]
      in if ec = errc_ok then shl_string_view s (string_view_of_cstr buff2) else Inr s)"

definition shl_Pointer ::
    "(char list \<Rightarrow> nat \<Rightarrow> nat \<Rightarrow> nat \<Rightarrow> char list \<times> errc) \<Rightarrow> ostream \<Rightarrow> nat \<Rightarrow> abort + ostream" where
  "shl_Pointer to_chars s val =
     (let conv = val;
          buff0 = replicate 40 (CHR 0x00);
          (buff1, ec) = to_chars buff0 (40 - 1) conv 16;
          buff2 = buff1[39 := CHR 0x00]
      in if ec = errc_ok then shl_string_view s (string_view_of_cstr buff2) else Inr s)"

text \<open>
  The integer overloads of \<open>std::to_chars(first, last, value, base)\<close>, after the C++
  standard: the value is written in the given base with no leading zeros, digits above 9
  as lowercase letters, a leading minus sign for a negative value; when the text does not
  fit into \<open>[first, last)\<close> the error is \<open>value_too_large\<close> (the buffer is then left as it
  was: the standard leaves its contents unspecified and no caller reads them). The base is
  between 2 and 36; the operators use 10 and 16.
\<close>

definition digit_char :: "nat \<Rightarrow> char" where
  "digit_char d = ''0123456789abcdefghijklmnopqrstuvwxyz'' ! d"

function digits_of :: "nat \<Rightarrow> nat \<Rightarrow> string" where
  "digits_of base n =
     (if base < 2 \<or> n < base then [digit_char n]
      else digits_of base (n div base) @ [digit_char (n mod base)])"
  by pat_completeness auto
termination
  by (relation "measure (\<lambda>(base, n). n)") auto

definition to_chars_int :: "char list \<Rightarrow> nat \<Rightarrow> int \<Rightarrow> nat \<Rightarrow> char list \<times> errc" where
  "to_chars_int mem cap val base =
     (let txt = (if val < 0 then CHR ''-'' # digits_of base (nat (- val))
                 else digits_of base (nat val))
      in if length txt \<le> cap then (txt @ drop (length txt) mem, errc_ok)
         else (mem, value_too_large))"

text \<open>The overloads the operators select for an integer and for a \<open>uintptr_t\<close>.\<close>

definition to_chars_default :: "char list \<Rightarrow> nat \<Rightarrow> int \<Rightarrow> char list \<times> errc" where
  "to_chars_default mem cap val = to_chars_int mem cap val 10"

definition to_chars_uintptr :: "char list \<Rightarrow> nat \<Rightarrow> nat \<Rightarrow> nat \<Rightarrow> char list \<times> errc" where
  "to_chars_uintptr mem cap val base = to_chars_int mem cap (int val) base"

text \<open>
  A sequence of operations on an \<open>OStream&\<close>: the two virtual calls and every
  \<open>operator<<\<close> of the class (the wide-text overload in its POSIX branch); an abort ends
  it. A floating-point value has the type \<open>'v\<close> and a wide character the type \<open>'w\<close>; the
  \<open>std::to_chars\<close> overload for \<open>'v\<close> and the byte layout of wide text are the arguments
  \<open>to_chars_fp\<close> and \<open>as_bytes_w\<close>.
\<close>

datatype ('v, 'w) operation =
    OpWrite "byte list"
  | OpFlush
  | OpShlFlush
  | OpShlEndl
  | OpShlCharacter char
  | OpShlCharacterU8 char
  | OpShlCharacterWide 'w
  | OpShlInt int
  | OpShlFloat 'v
  | OpShlPointer nat
  | OpShlStringView string
  | OpShlU8StringView string
  | OpShlWStringView "'w list"

fun apply_operation ::
    "(char list \<Rightarrow> nat \<Rightarrow> 'v \<Rightarrow> char list \<times> errc) \<Rightarrow> ('w::zero list \<Rightarrow> byte list)
      \<Rightarrow> ostream \<Rightarrow> ('v, 'w) operation \<Rightarrow> abort + ostream" where
  "apply_operation to_chars_fp as_bytes_w s (OpWrite span) = virtual_write s span"
| "apply_operation to_chars_fp as_bytes_w s OpFlush = virtual_flush s"
| "apply_operation to_chars_fp as_bytes_w s OpShlFlush = shl_Flush s"
| "apply_operation to_chars_fp as_bytes_w s OpShlEndl = shl_Endl s"
| "apply_operation to_chars_fp as_bytes_w s (OpShlCharacter c) = shl_Character s c"
| "apply_operation to_chars_fp as_bytes_w s (OpShlCharacterU8 c) = shl_Character_u8 s c"
| "apply_operation to_chars_fp as_bytes_w s (OpShlCharacterWide c) =
     shl_Character_wide as_bytes_w s c"
| "apply_operation to_chars_fp as_bytes_w s (OpShlInt v) = shl_IntOrFloat to_chars_default s v"
| "apply_operation to_chars_fp as_bytes_w s (OpShlFloat v) = shl_IntOrFloat to_chars_fp s v"
| "apply_operation to_chars_fp as_bytes_w s (OpShlPointer p) =
     shl_Pointer to_chars_uintptr s p"
| "apply_operation to_chars_fp as_bytes_w s (OpShlStringView str) = shl_string_view s str"
| "apply_operation to_chars_fp as_bytes_w s (OpShlU8StringView str) =
     shl_u8string_view s str"
| "apply_operation to_chars_fp as_bytes_w s (OpShlWStringView str) =
     shl_wstring_view as_bytes_w s str"

fun apply_operations ::
    "(char list \<Rightarrow> nat \<Rightarrow> 'v \<Rightarrow> char list \<times> errc) \<Rightarrow> ('w::zero list \<Rightarrow> byte list)
      \<Rightarrow> ostream \<Rightarrow> ('v, 'w) operation list \<Rightarrow> abort + ostream" where
  "apply_operations to_chars_fp as_bytes_w s [] = Inr s"
| "apply_operations to_chars_fp as_bytes_w s (x # xs) =
     (case apply_operation to_chars_fp as_bytes_w s x of
        Inl e \<Rightarrow> Inl e
      | Inr s1 \<Rightarrow> apply_operations to_chars_fp as_bytes_w s1 xs)"

section \<open>Properties\<close>

lemmas stream_defs =
  BufferedOStream_write_def BufferedOStream_flush_def to_buffer_def
  BufferedOStream_from_def IODevice_write_def flush_handle_def
  size_t_sub_def size_t_add_def SIZE_MOD_def

subsection \<open>Helper facts\<close>

lemma size_t_sub_in_range:
  assumes "N < SIZE_MOD" and "c \<le> N"
  shows "size_t_sub N c = N - c"
proof -
  have eq: "N + SIZE_MOD - c = (N - c) + SIZE_MOD"
    using assms by linarith
  have lt: "N - c < SIZE_MOD"
    using assms by linarith
  have "size_t_sub N c = ((N - c) + SIZE_MOD) mod SIZE_MOD"
    by (simp only: size_t_sub_def eq)
  also have "\<dots> = (N - c) mod SIZE_MOD"
    by (simp only: mod_add_self2)
  also have "\<dots> = N - c"
    using lt by (simp only: mod_less)
  finally show ?thesis .
qed

lemma size_t_add_in_range:
  assumes "a + b < SIZE_MOD"
  shows "size_t_add a b = a + b"
  using assms by (simp add: size_t_add_def)

lemma sink_bytes_append [simp]:
  "sink_bytes (xs @ ys) = sink_bytes xs @ sink_bytes ys"
  by (induction xs rule: sink_bytes.induct) simp_all

lemma sink_writes_append [simp]:
  "sink_writes (xs @ ys) = sink_writes xs @ sink_writes ys"
  by (induction xs rule: sink_writes.induct) simp_all

lemma flush_result:
  assumes "curr s \<le> N"
  shows "BufferedOStream_flush N s =
           Inr (s\<lparr>fd := fd s @ (if 0 < curr s then [SinkWrite (take (curr s) (buff s))] else [])
                              @ [SinkSync],
                  curr := 0\<rparr>)"
  using assms
  by (simp add: BufferedOStream_flush_def IODevice_write_def flush_handle_def Let_def)

lemma to_buffer_result:
  assumes "buffer_inv N s" and "span \<noteq> []" and "length span \<le> N - curr s"
  shows "to_buffer N s span =
           Inr (s\<lparr>buff := take (curr s) (buff s) @ span @ drop (curr s + length span) (buff s),
                  curr := curr s + length span\<rparr>)"
proof -
  have sub: "size_t_sub N (curr s) = N - curr s"
    using assms(1) by (simp add: buffer_inv_def size_t_sub_in_range)
  have "curr s \<le> N" and "N < SIZE_MOD"
    using assms(1) by (simp_all add: buffer_inv_def)
  then have "curr s + length span < SIZE_MOD"
    using assms(3) by linarith
  then have add: "size_t_add (curr s) (length span) = curr s + length span"
    by (rule size_t_add_in_range)
  show ?thesis
    using assms by (simp add: to_buffer_def sub add buffer_inv_def)
qed

lemma write_result:
  assumes "buffer_inv N s"
  shows "BufferedOStream_write N s span =
     Inr (if span = [] then s
          else if N < length span then
            s\<lparr>fd := fd s @ (if 0 < curr s then [SinkWrite (take (curr s) (buff s))] else [])
                          @ [SinkSync, SinkWrite span],
              curr := 0\<rparr>
          else if N - curr s < length span then
            s\<lparr>fd := fd s @ [SinkWrite (take (curr s) (buff s)), SinkSync],
              buff := span @ drop (length span) (buff s),
              curr := length span\<rparr>
          else
            s\<lparr>buff := take (curr s) (buff s) @ span @ drop (curr s + length span) (buff s),
              curr := curr s + length span\<rparr>)"
proof -
  have sub: "size_t_sub N (curr s) = N - curr s"
    using assms by (simp add: buffer_inv_def size_t_sub_in_range)
  have fl: "BufferedOStream_flush N s =
           Inr (s\<lparr>fd := fd s @ (if 0 < curr s then [SinkWrite (take (curr s) (buff s))] else [])
                              @ [SinkSync],
                  curr := 0\<rparr>)" (is "_ = Inr ?s1")
    using assms by (simp add: buffer_inv_def flush_result)
  have inv1: "buffer_inv N ?s1"
    using assms by (simp add: buffer_inv_def)
  show ?thesis
  proof (cases "span = []")
    case True
    then show ?thesis by (simp add: BufferedOStream_write_def Let_def)
  next
    case ne: False
    show ?thesis
    proof (cases "N < length span")
      case True
      then show ?thesis
        using ne by (simp add: BufferedOStream_write_def Let_def fl IODevice_write_def)
    next
      case fits: False
      show ?thesis
      proof (cases "N - curr s < length span")
        case True
        then have pos: "0 < curr s" using fits by simp
        have "to_buffer N ?s1 span =
                Inr (?s1\<lparr>buff := take (curr ?s1) (buff ?s1) @ span
                                      @ drop (curr ?s1 + length span) (buff ?s1),
                          curr := curr ?s1 + length span\<rparr>)"
          using inv1 ne fits by (intro to_buffer_result) simp_all
        then show ?thesis
          using ne fits True pos by (simp add: BufferedOStream_write_def Let_def fl sub)
      next
        case False
        then have "to_buffer N s span =
           Inr (s\<lparr>buff := take (curr s) (buff s) @ span @ drop (curr s + length span) (buff s),
                  curr := curr s + length span\<rparr>)"
          using assms ne by (intro to_buffer_result) simp_all
        then show ?thesis
          using ne fits False by (simp add: BufferedOStream_write_def Let_def sub)
      qed
    qed
  qed
qed

lemma buffer_invD:
  assumes "buffer_inv N s"
  shows "N < SIZE_MOD" and "length (buff s) = N" and "curr s \<le> N"
  using assms unfolding buffer_inv_def by blast+

lemma fits_free_space:
  "c \<le> N \<Longrightarrow> \<not> N - c < l \<Longrightarrow> c + l \<le> (N::nat)"
  by linarith

lemma write_conserves:
  assumes "buffer_inv N s"
  shows "\<exists>s1. BufferedOStream_write N s span = Inr s1 \<and> buffer_inv N s1
           \<and> sink_bytes (fd s1) @ take (curr s1) (buff s1)
               = sink_bytes (fd s) @ take (curr s) (buff s) @ span"
proof -
  note inv = buffer_invD [OF assms]
  have tk: "length (take (curr s) (buff s)) = curr s"
    using inv(2,3) by simp
  show ?thesis
    using inv tk by (auto simp: write_result [OF assms] buffer_inv_def fits_free_space)
qed

lemma flush_conserves:
  assumes "buffer_inv N s"
  shows "\<exists>s1. BufferedOStream_flush N s = Inr s1 \<and> buffer_inv N s1
           \<and> curr s1 = 0
           \<and> sink_bytes (fd s1) = sink_bytes (fd s) @ take (curr s) (buff s)"
proof -
  note inv = buffer_invD [OF assms]
  show ?thesis
    using inv by (simp add: flush_result buffer_inv_def)
qed

lemma write_accepts:
  assumes "buffer_inv N s" and "take (curr s) (buff s) = concat acc"
  shows "\<exists>s1. BufferedOStream_write N s span = Inr s1 \<and> buffer_inv N s1
           \<and> take (curr s1) (buff s1) = concat (accepted_after N acc (Write span))"
proof -
  note inv = buffer_invD [OF assms(1)]
  have tk: "length (take (curr s) (buff s)) = curr s"
    using inv(2,3) by simp
  then have len: "length (concat acc) = curr s"
    using assms(2) by simp
  show ?thesis
    using inv tk assms(2)
    by (auto simp: write_result [OF assms(1)] buffer_inv_def len fits_free_space)
qed

lemma do_call_accepts:
  assumes "buffer_inv N s" and "take (curr s) (buff s) = concat acc"
  shows "\<exists>s1. do_call N s c = Inr s1 \<and> buffer_inv N s1
           \<and> take (curr s1) (buff s1) = concat (accepted_after N acc c)"
proof (cases c)
  case (Write span)
  then show ?thesis
    using write_accepts [OF assms] by simp
next
  case Flush
  then show ?thesis
    using flush_conserves [OF assms(1)] by auto
qed

lemma do_calls_accepts:
  assumes "buffer_inv N s" and "take (curr s) (buff s) = concat acc"
  shows "\<exists>s1. do_calls N s cs = Inr s1 \<and> buffer_inv N s1
           \<and> take (curr s1) (buff s1) = concat (foldl (accepted_after N) acc cs)"
  using assms
proof (induction cs arbitrary: s acc)
  case Nil
  then show ?case by simp
next
  case (Cons c cs)
  obtain s1 where s1: "do_call N s c = Inr s1" "buffer_inv N s1"
      "take (curr s1) (buff s1) = concat (accepted_after N acc c)"
    using do_call_accepts [OF Cons.prems] by blast
  show ?case
    using Cons.IH [OF s1(2,3)] s1(1) by simp
qed

lemma do_call_conserves:
  assumes "buffer_inv N s"
  shows "\<exists>s1. do_call N s c = Inr s1 \<and> buffer_inv N s1
           \<and> sink_bytes (fd s1) @ take (curr s1) (buff s1)
               = sink_bytes (fd s) @ take (curr s) (buff s) @ concat (written [c])"
proof (cases c)
  case (Write span)
  then show ?thesis
    using write_conserves [OF assms, of span] by simp
next
  case Flush
  then show ?thesis
    using flush_conserves [OF assms] by auto
qed

lemma written_Cons: "concat (written (c # cs)) = concat (written [c]) @ concat (written cs)"
  by (cases c) simp_all

lemma do_calls_conserves:
  assumes "buffer_inv N s"
  shows "\<exists>s1. do_calls N s cs = Inr s1 \<and> buffer_inv N s1
           \<and> sink_bytes (fd s1) @ take (curr s1) (buff s1)
               = sink_bytes (fd s) @ take (curr s) (buff s) @ concat (written cs)"
  using assms
proof (induction cs arbitrary: s)
  case Nil
  then show ?case by simp
next
  case (Cons c cs)
  obtain s1 where s1: "do_call N s c = Inr s1" "buffer_inv N s1"
      "sink_bytes (fd s1) @ take (curr s1) (buff s1)
         = sink_bytes (fd s) @ take (curr s) (buff s) @ concat (written [c])"
    using do_call_conserves [OF Cons.prems] by blast
  obtain s2 where s2: "do_calls N s1 cs = Inr s2" "buffer_inv N s2"
      "sink_bytes (fd s2) @ take (curr s2) (buff s2)
         = sink_bytes (fd s1) @ take (curr s1) (buff s1) @ concat (written cs)"
    using Cons.IH [OF s1(2)] by blast
  have "sink_bytes (fd s2) @ take (curr s2) (buff s2)
         = sink_bytes (fd s) @ take (curr s) (buff s) @ concat (written (c # cs))"
    using s1(3) s2(3) by (simp only: written_Cons [of c cs] append_assoc [symmetric])
  then show ?case
    using s1(1) s2(1,2) by simp
qed

lemma from_inv:
  assumes "N < SIZE_MOD"
  shows "buffer_inv N (BufferedOStream_from N dev)"
  using assms by (simp add: buffer_inv_def BufferedOStream_from_def)

declare digits_of.simps [simp del]

lemmas shl_defs =
  shl_IntOrFloat_def shl_Pointer_def shl_string_view_def shl_Character_def
  shl_Flush_def shl_Endl_def string_view_of_cstr_def as_bytes_def

lemmas to_chars_defs =
  to_chars_default_def to_chars_uintptr_def to_chars_int_def digit_char_def

lemma replicate_update_same: "(replicate n x)[i := x] = replicate n x"
  by (induction n arbitrary: i) (auto split: nat.split)

lemma string_view_of_padded:
  assumes "CHR 0x00 \<notin> set txt" and "length txt \<le> 39" and "0 < k"
  shows "string_view_of_cstr ((txt @ replicate k (CHR 0x00))[39 := CHR 0x00]) = txt"
proof -
  have "(txt @ replicate k (CHR 0x00))[39 := CHR 0x00]
          = txt @ (replicate k (CHR 0x00))[39 - length txt := CHR 0x00]"
    using assms(2) by (simp add: list_update_append)
  also have "\<dots> = txt @ replicate k (CHR 0x00)"
    by (simp only: replicate_update_same)
  finally have "string_view_of_cstr ((txt @ replicate k (CHR 0x00))[39 := CHR 0x00])
          = takeWhile (\<lambda>c. c \<noteq> CHR 0x00) (txt @ replicate k (CHR 0x00))"
    by (simp only: string_view_of_cstr_def)
  also have "\<dots> = txt @ takeWhile (\<lambda>c. c \<noteq> CHR 0x00) (replicate k (CHR 0x00))"
    using assms(1) by (intro takeWhile_append2) auto
  also have "\<dots> = txt"
    using assms(3) by (cases k) simp_all
  finally show ?thesis .
qed

lemma to_chars_minus_42:
  "to_chars_default (replicate 40 (CHR 0x00)) 39 (- 42)
     = (''-42'' @ replicate 37 (CHR 0x00), errc_ok)"
  by (simp add: to_chars_defs digits_of.simps [of 10 42] digits_of.simps [of 10 4])

lemma to_chars_0xAB:
  "to_chars_uintptr (replicate 40 (CHR 0x00)) 39 0xAB 16
     = (''ab'' @ replicate 38 (CHR 0x00), errc_ok)"
  by (simp add: to_chars_defs digits_of.simps [of 16 171] digits_of.simps [of 16 10])

lemma apply_operation_Null:
  "apply_operation to_chars_fp as_bytes_w (Null s) x = Inr (Null s)"
  by (cases x)
     (simp_all add: shl_defs shl_u8string_view_def shl_Character_u8_def
        shl_wstring_view_def shl_Character_wide_def
        NullOStream_write_def NullOStream_flush_def Let_def
        split: prod.splits)

subsection \<open>The claims\<close>

text \<open>
  C1. \<open>BufferedOStream<N>::write\<close> on a stream that satisfies its invariant follows the
  four-way case split: an empty span changes nothing; a span longer than \<open>N\<close> makes the
  Sink receive the buffered bytes (if any) and a synchronize request, then the span itself
  in one direct write, with the buffer left empty and the array untouched; a span that
  fits \<open>N\<close> but not the free space \<open>N - curr\<close> makes the Sink receive the buffered bytes
  and a synchronize request, and is then copied to the start of the buffer; any other span
  is copied into the buffer at \<open>curr\<close>, \<open>curr\<close> advances by its size and the Sink receives
  nothing.
\<close>

theorem write_case_split:
  assumes "buffer_inv N s"
  shows "(span = [] \<longrightarrow> BufferedOStream_write N s span = Inr s)
    \<and> (span \<noteq> [] \<and> N < length span \<longrightarrow>
         BufferedOStream_write N s span =
           Inr (s\<lparr>fd := fd s @ (if 0 < curr s then [SinkWrite (take (curr s) (buff s))] else [])
                              @ [SinkSync, SinkWrite span],
                  curr := 0\<rparr>))
    \<and> (span \<noteq> [] \<and> length span \<le> N \<and> N - curr s < length span \<longrightarrow>
         BufferedOStream_write N s span =
           Inr (s\<lparr>fd := fd s @ [SinkWrite (take (curr s) (buff s)), SinkSync],
                  buff := span @ drop (length span) (buff s),
                  curr := length span\<rparr>))
    \<and> (span \<noteq> [] \<and> length span \<le> N \<and> length span \<le> N - curr s \<longrightarrow>
         BufferedOStream_write N s span =
           Inr (s\<lparr>buff := take (curr s) (buff s) @ span @ drop (curr s + length span) (buff s),
                  curr := curr s + length span\<rparr>))"
  using assms by (simp add: write_result)

theorem write_case_split_witness:
  "buffer_inv 4 \<lparr>fd = [], buff = ''abcd'', curr = 2\<rparr>
   \<and> BufferedOStream_write 4 \<lparr>fd = [], buff = ''abcd'', curr = 2\<rparr> [] =
        Inr \<lparr>fd = [], buff = ''abcd'', curr = 2\<rparr>
   \<and> BufferedOStream_write 4 \<lparr>fd = [], buff = ''abcd'', curr = 2\<rparr> ''VWXYZ'' =
        Inr \<lparr>fd = [SinkWrite ''ab'', SinkSync, SinkWrite ''VWXYZ''], buff = ''abcd'', curr = 0\<rparr>
   \<and> BufferedOStream_write 4 \<lparr>fd = [], buff = ''abcd'', curr = 2\<rparr> ''XYZ'' =
        Inr \<lparr>fd = [SinkWrite ''ab'', SinkSync], buff = ''XYZd'', curr = 3\<rparr>
   \<and> BufferedOStream_write 4 \<lparr>fd = [], buff = ''abcd'', curr = 2\<rparr> ''X'' =
        Inr \<lparr>fd = [], buff = ''abXd'', curr = 3\<rparr>"
proof -
  let ?s = "\<lparr>fd = [], buff = ''abcd'', curr = 2\<rparr>"
  have inv: "buffer_inv 4 ?s"
    by (simp add: buffer_inv_def SIZE_MOD_def)
  show ?thesis
    using inv
      write_case_split [OF inv, of "[]"]
      write_case_split [OF inv, of "''VWXYZ''"]
      write_case_split [OF inv, of "''XYZ''"]
      write_case_split [OF inv, of "''X''"]
    by simp
qed

text \<open>
  C2. After every sequence of \<open>write\<close> and \<open>flush\<close> calls on a freshly constructed
  \<open>BufferedOStream<N>\<close> (no call aborts), \<open>0 \<le> curr \<le> N\<close>, the array still has \<open>N\<close> bytes,
  and its first \<open>curr\<close> bytes are the concatenation, in order, of the spans accepted into
  the buffer since the last flush; they are also exactly the written bytes that the Sink
  has not observed yet. The sequence is arbitrary, so this holds after each of its calls.
\<close>

theorem buffer_invariant:
  assumes "N < SIZE_MOD"
  shows "\<exists>s. do_calls N (BufferedOStream_from N dev) cs = Inr s
           \<and> 0 \<le> curr s \<and> curr s \<le> N
           \<and> length (buff s) = N
           \<and> take (curr s) (buff s) = concat (accepted N cs)
           \<and> sink_bytes (fd s) @ take (curr s) (buff s)
               = sink_bytes dev @ concat (written cs)"
proof -
  let ?s0 = "BufferedOStream_from N dev"
  have inv0: "buffer_inv N ?s0"
    using assms by (rule from_inv)
  have "take (curr ?s0) (buff ?s0) = concat []"
    by (simp add: BufferedOStream_from_def)
  from do_calls_accepts [OF inv0 this, of cs]
  obtain s where s: "do_calls N ?s0 cs = Inr s" "buffer_inv N s"
      "take (curr s) (buff s) = concat (accepted N cs)"
    by (auto simp: accepted_def)
  from do_calls_conserves [OF inv0, of cs] s(1)
  have "sink_bytes (fd s) @ take (curr s) (buff s)
          = sink_bytes (fd ?s0) @ take (curr ?s0) (buff ?s0) @ concat (written cs)"
    by auto
  then have "sink_bytes (fd s) @ take (curr s) (buff s) = sink_bytes dev @ concat (written cs)"
    by (simp add: BufferedOStream_from_def)
  with s buffer_invD [OF s(2)] show ?thesis
    by blast
qed

theorem buffer_invariant_witness:
  "(8::nat) < SIZE_MOD
   \<and> (\<exists>s. do_calls 8 (BufferedOStream_from 8 [])
              [Write ''AB'', Write ''CDEFG'', Write ''HIJ'', Write ''K''] = Inr s
          \<and> curr s \<le> 8 \<and> length (buff s) = 8
          \<and> take (curr s) (buff s) = ''HIJK''
          \<and> sink_bytes (fd s) @ take (curr s) (buff s) = ''ABCDEFGHIJK'')"
proof -
  have lt: "(8::nat) < SIZE_MOD"
    by (simp add: SIZE_MOD_def)
  show ?thesis
    using lt buffer_invariant [OF lt, of "[]"
        "[Write ''AB'', Write ''CDEFG'', Write ''HIJ'', Write ''K'']"]
    by (simp add: accepted_def)
qed

text \<open>
  C3. On a stream that satisfies its invariant, writing \<open>A\<close> (at most \<open>N\<close> bytes), then \<open>B\<close>
  (more than \<open>N\<close> bytes), then \<open>C\<close> (at most \<open>N\<close> bytes) and flushing: no call aborts; when
  the write of \<open>B\<close> returns, \<open>B\<close> is the last write the Sink has received, in one piece, and
  everything before it adds up to the earlier bytes followed by \<open>A\<close>; the buffer is then
  empty; the write of \<open>C\<close> only fills the buffer; the final flush hands \<open>C\<close> to the Sink, which
  has then observed the earlier bytes, \<open>A\<close>, \<open>B\<close> and \<open>C\<close> in this order.
\<close>

theorem bypass_keeps_order:
  assumes "buffer_inv N s"
    and "length A \<le> N" and "N < length B" and "length C \<le> N"
  shows "\<exists>s2 s3 s4 pre.
      do_calls N s [Write A, Write B] = Inr s2
    \<and> do_calls N s [Write A, Write B, Write C] = Inr s3
    \<and> do_calls N s [Write A, Write B, Write C, Flush] = Inr s4
    \<and> fd s2 = pre @ [SinkWrite B]
    \<and> sink_bytes pre = sink_bytes (fd s) @ take (curr s) (buff s) @ A
    \<and> curr s2 = 0
    \<and> fd s3 = fd s2
    \<and> take (curr s3) (buff s3) = C
    \<and> fd s4 = fd s2 @ (if C = [] then [] else [SinkWrite C]) @ [SinkSync]
    \<and> sink_bytes (fd s4) = sink_bytes (fd s) @ take (curr s) (buff s) @ A @ B @ C"
proof -
  obtain s1 where s1: "BufferedOStream_write N s A = Inr s1" "buffer_inv N s1"
      "sink_bytes (fd s1) @ take (curr s1) (buff s1)
         = sink_bytes (fd s) @ take (curr s) (buff s) @ A"
    using write_conserves [OF assms(1), of A] by blast
  define pre where
    "pre = fd s1 @ (if 0 < curr s1 then [SinkWrite (take (curr s1) (buff s1))] else [])
                 @ [SinkSync]"
  define s2 where "s2 = s1\<lparr>fd := pre @ [SinkWrite B], curr := 0\<rparr>"
  have B_ne: "B \<noteq> []"
    using assms(3) by auto
  have w2: "BufferedOStream_write N s1 B = Inr s2"
    using assms(3) B_ne by (simp add: write_result [OF s1(2)] s2_def pre_def)
  have inv2: "buffer_inv N s2"
    using s1(2) by (simp add: buffer_inv_def s2_def)
  have "sink_bytes pre = sink_bytes (fd s1) @ take (curr s1) (buff s1)"
    by (simp add: pre_def)
  then have pre_bytes: "sink_bytes pre = sink_bytes (fd s) @ take (curr s) (buff s) @ A"
    using s1(3) by simp
  have c2: "curr s2 = 0"
    by (simp add: s2_def)
  define s3 where
    "s3 = (if C = [] then s2 else s2\<lparr>buff := C @ drop (length C) (buff s2), curr := length C\<rparr>)"
  have w3: "BufferedOStream_write N s2 C = Inr s3"
    using assms(4) c2 by (simp add: write_result [OF inv2] s3_def)
  have c3: "curr s3 \<le> N"
    using assms(4) c2 by (simp add: s3_def)
  have tk3: "take (curr s3) (buff s3) = C"
    using c2 by (simp add: s3_def)
  have pos3: "0 < curr s3 \<longleftrightarrow> C \<noteq> []"
    using c2 by (simp add: s3_def)
  define s4 where
    "s4 = s3\<lparr>fd := fd s3 @ (if 0 < curr s3 then [SinkWrite (take (curr s3) (buff s3))] else [])
                         @ [SinkSync],
              curr := 0\<rparr>"
  have f4: "BufferedOStream_flush N s3 = Inr s4"
    using c3 by (simp add: flush_result s4_def)
  have fd3: "fd s3 = fd s2"
    by (simp add: s3_def)
  have fd2: "fd s2 = pre @ [SinkWrite B]"
    by (simp add: s2_def)
  have fd4: "fd s4 = fd s2 @ (if C = [] then [] else [SinkWrite C]) @ [SinkSync]"
    using pos3 by (simp add: s4_def fd3 tk3)
  have bytes4: "sink_bytes (fd s4) = sink_bytes (fd s) @ take (curr s) (buff s) @ A @ B @ C"
    by (simp add: fd4 fd2 pre_bytes)
  have r2: "do_calls N s [Write A, Write B] = Inr s2"
    by (simp add: s1(1) w2)
  have r3: "do_calls N s [Write A, Write B, Write C] = Inr s3"
    by (simp add: s1(1) w2 w3)
  have r4: "do_calls N s [Write A, Write B, Write C, Flush] = Inr s4"
    by (simp add: s1(1) w2 w3 f4)
  from r2 r3 r4 fd2 pre_bytes c2 fd3 tk3 fd4 bytes4 show ?thesis
    by blast
qed

theorem bypass_keeps_order_witness:
  "buffer_inv 4 (BufferedOStream_from 4 [])
   \<and> length ''ab'' \<le> (4::nat) \<and> (4::nat) < length ''VWXYZ'' \<and> length ''cd'' \<le> (4::nat)
   \<and> (\<exists>s2 s4.
        do_calls 4 (BufferedOStream_from 4 []) [Write ''ab'', Write ''VWXYZ''] = Inr s2
      \<and> do_calls 4 (BufferedOStream_from 4 [])
           [Write ''ab'', Write ''VWXYZ'', Write ''cd'', Flush] = Inr s4
      \<and> sink_bytes (fd s2) = ''abVWXYZ''
      \<and> fd s4 = fd s2 @ [SinkWrite ''cd'', SinkSync]
      \<and> sink_bytes (fd s4) = ''abVWXYZcd'')"
proof -
  have inv: "buffer_inv 4 (BufferedOStream_from 4 [])"
    by (simp add: buffer_inv_def BufferedOStream_from_def SIZE_MOD_def)
  have a: "length ''ab'' \<le> (4::nat)" and b: "(4::nat) < length ''VWXYZ''"
    and c: "length ''cd'' \<le> (4::nat)"
    by simp_all
  from bypass_keeps_order [OF inv a b c]
  obtain s2 and s3 :: BufferedOStream and s4 and pre where h:
      "do_calls 4 (BufferedOStream_from 4 []) [Write ''ab'', Write ''VWXYZ''] = Inr s2"
      "do_calls 4 (BufferedOStream_from 4 []) [Write ''ab'', Write ''VWXYZ'', Write ''cd'', Flush]
         = Inr s4"
      "fd s2 = pre @ [SinkWrite ''VWXYZ'']"
      "sink_bytes pre = sink_bytes (fd (BufferedOStream_from 4 []))
          @ take (curr (BufferedOStream_from 4 [])) (buff (BufferedOStream_from 4 [])) @ ''ab''"
      "fd s4 = fd s2 @ (if ''cd'' = [] then [] else [SinkWrite ''cd'']) @ [SinkSync]"
      "sink_bytes (fd s4) = sink_bytes (fd (BufferedOStream_from 4 []))
          @ take (curr (BufferedOStream_from 4 [])) (buff (BufferedOStream_from 4 []))
          @ ''ab'' @ ''VWXYZ'' @ ''cd''"
    by blast
  have "sink_bytes (fd s2) = ''abVWXYZ''"
    using h(3,4) by (simp add: BufferedOStream_from_def)
  moreover have "fd s4 = fd s2 @ [SinkWrite ''cd'', SinkSync]"
    using h(5) by simp
  moreover have "sink_bytes (fd s4) = ''abVWXYZcd''"
    using h(6) by (simp add: BufferedOStream_from_def)
  ultimately show ?thesis
    using inv h(1,2) by simp
qed

text \<open>
  C4. \<open>BufferedOStream<N>::flush\<close> on a stream with \<open>curr \<le> N\<close>: when \<open>curr > 0\<close> the Sink
  receives the region \<open>[0, curr)\<close> in one write and \<open>curr\<close> becomes 0; in every case the Sink
  then receives a synchronize request. A second flush right after the first only adds a
  synchronize request: it writes no bytes, the bytes the Sink has observed are those after
  the first flush, and \<open>curr\<close> stays 0.
\<close>

theorem flush_effect_and_idempotence:
  assumes "curr s \<le> N"
  shows "\<exists>s1 s2.
      BufferedOStream_flush N s = Inr s1
    \<and> fd s1 = fd s @ (if 0 < curr s then [SinkWrite (take (curr s) (buff s))] else [])
                    @ [SinkSync]
    \<and> curr s1 = 0 \<and> buff s1 = buff s
    \<and> BufferedOStream_flush N s1 = Inr s2
    \<and> fd s2 = fd s1 @ [SinkSync]
    \<and> sink_writes (fd s2) = sink_writes (fd s1)
    \<and> sink_bytes (fd s2) = sink_bytes (fd s1)
    \<and> curr s2 = 0 \<and> buff s2 = buff s1"
  using assms by (simp add: flush_result)

theorem flush_effect_and_idempotence_witness:
  "curr \<lparr>fd = [], buff = ''abcd'', curr = 2\<rparr> \<le> 4
   \<and> (\<exists>s1 s2.
        BufferedOStream_flush 4 \<lparr>fd = [], buff = ''abcd'', curr = 2\<rparr> = Inr s1
      \<and> fd s1 = [SinkWrite ''ab'', SinkSync] \<and> curr s1 = 0
      \<and> BufferedOStream_flush 4 s1 = Inr s2
      \<and> fd s2 = [SinkWrite ''ab'', SinkSync, SinkSync] \<and> curr s2 = 0)"
proof -
  have le: "curr \<lparr>fd = [], buff = ''abcd'', curr = 2\<rparr> \<le> 4"
    by simp
  show ?thesis
    using le flush_effect_and_idempotence [OF le]
    by auto
qed

text \<open>
  C5. Capacity 8, starting empty: after writing "AB" and "CDEFG" the Sink has received
  nothing; writing "HIJ" (3 bytes, 1 byte free) makes the Sink receive exactly one
  write, of the 7 bytes "ABCDEFG" (followed by the synchronize request of the flush),
  and leaves "HIJ" in the buffer with the cursor at 3.
\<close>

theorem scenario_capacity_8:
  "(\<exists>s2. do_calls 8 (BufferedOStream_from 8 []) [Write ''AB'', Write ''CDEFG''] = Inr s2
      \<and> fd s2 = [] \<and> curr s2 = 7 \<and> size_t_sub 8 (curr s2) = 1) \<and>
   (\<exists>s3. do_calls 8 (BufferedOStream_from 8 []) [Write ''AB'', Write ''CDEFG'', Write ''HIJ'']
            = Inr s3
      \<and> fd s3 = [SinkWrite ''ABCDEFG'', SinkSync]
      \<and> sink_writes (fd s3) = [''ABCDEFG'']
      \<and> curr s3 = 3
      \<and> take (curr s3) (buff s3) = ''HIJ'')"
  by (simp add: stream_defs Let_def)

text \<open>
  C6. Formatting the integer \<open>-42\<close> hands exactly the three bytes "-42" to the stream's
  \<open>write\<close>, and formatting a pointer with address \<open>0xAB\<close> hands it exactly the two bytes
  "ab"; on a plain \<open>OStream\<close> the Sink receives that one write. The operator only reads the
  address, there is no memory in its model to dereference.
\<close>

theorem format_int_and_pointer:
  "shl_IntOrFloat to_chars_default s (- 42) = virtual_write s ''-42''
   \<and> shl_Pointer to_chars_uintptr s 0xAB = virtual_write s ''ab''
   \<and> shl_IntOrFloat to_chars_default (Plain \<lparr>fd = dev\<rparr>) (- 42)
        = Inr (Plain \<lparr>fd = dev @ [SinkWrite ''-42'']\<rparr>)
   \<and> shl_Pointer to_chars_uintptr (Plain \<lparr>fd = dev\<rparr>) 0xAB
        = Inr (Plain \<lparr>fd = dev @ [SinkWrite ''ab'']\<rparr>)"
proof -
  have cap: "40 - 1 = (39::nat)"
    by simp
  have sv_int: "string_view_of_cstr ((''-42'' @ replicate 37 (CHR 0x00))[39 := CHR 0x00]) = ''-42''"
    by (rule string_view_of_padded) simp_all
  have sv_ptr: "string_view_of_cstr ((''ab'' @ replicate 38 (CHR 0x00))[39 := CHR 0x00]) = ''ab''"
    by (rule string_view_of_padded) simp_all
  have a: "shl_IntOrFloat to_chars_default s (- 42) = virtual_write s ''-42''" for s
    unfolding shl_IntOrFloat_def Let_def cap to_chars_minus_42 prod.case sv_int
    by (simp add: shl_string_view_def as_bytes_def)
  have b: "shl_Pointer to_chars_uintptr s 0xAB = virtual_write s ''ab''" for s
    unfolding shl_Pointer_def Let_def cap to_chars_0xAB prod.case sv_ptr
    by (simp add: shl_string_view_def as_bytes_def)
  show ?thesis
    by (simp add: a b OStream_write_def IODevice_write_def)
qed

text \<open>
  C7. Whatever the conversion facility is and whatever the value: when \<open>std::to_chars\<close>
  reports an error condition for the call the operator makes (a zeroed buffer of 40 bytes,
  39 of them offered), \<open>operator<<\<close> for numbers and \<open>operator<<\<close> for pointers return the
  stream as it was, with no abort: nothing is written and nothing is flushed.
\<close>

theorem conversion_failure_is_silent:
  "(snd (to_chars (replicate 40 (CHR 0x00)) 39 v) \<noteq> errc_ok
      \<longrightarrow> shl_IntOrFloat to_chars s v = Inr s)
   \<and> (snd (to_chars_base (replicate 40 (CHR 0x00)) 39 p 16) \<noteq> errc_ok
      \<longrightarrow> shl_Pointer to_chars_base s p = Inr s)"
  by (simp add: shl_IntOrFloat_def shl_Pointer_def Let_def split: prod.splits)

theorem conversion_failure_is_silent_witness:
  "snd (to_chars_default (replicate 40 (CHR 0x00)) 39
          (- 100000000000000000000000000000000000000)) \<noteq> errc_ok
   \<and> shl_IntOrFloat to_chars_default (Plain \<lparr>fd = []\<rparr>)
          (- 100000000000000000000000000000000000000) = Inr (Plain \<lparr>fd = []\<rparr>)
   \<and> snd (to_chars_uintptr (replicate 40 (CHR 0x00)) 39
          0x1000000000000000000000000000000000000000 16) \<noteq> errc_ok
   \<and> shl_Pointer to_chars_uintptr (Plain \<lparr>fd = []\<rparr>)
          0x1000000000000000000000000000000000000000 = Inr (Plain \<lparr>fd = []\<rparr>)"
proof -
  have len10: "length (digits_of 10 100000000000000000000000000000000000000) = 39"
    by (simp add: digits_of.simps)
  have len16: "length (digits_of 16 0x1000000000000000000000000000000000000000) = 40"
    by (simp add: digits_of.simps)
  have a: "snd (to_chars_default (replicate 40 (CHR 0x00)) 39
          (- 100000000000000000000000000000000000000)) \<noteq> errc_ok"
    by (simp add: to_chars_default_def to_chars_int_def len10)
  have b: "snd (to_chars_uintptr (replicate 40 (CHR 0x00)) 39
          0x1000000000000000000000000000000000000000 16) \<noteq> errc_ok"
    by (simp add: to_chars_uintptr_def to_chars_int_def len16)
  show ?thesis
    using a b
      conversion_failure_is_silent [of to_chars_default
        "- 100000000000000000000000000000000000000" "Plain \<lparr>fd = []\<rparr>"
        to_chars_uintptr "0x1000000000000000000000000000000000000000"]
    by blast
qed




text \<open>
  C9. Destroying a \<open>BufferedOStream<N>\<close> with \<open>curr > 0\<close>, reached by any calls from a stream
  that satisfies the invariant: the Sink receives no write and no synchronize request, so
  the bytes it has observed are those before the destruction; the \<open>curr\<close> buffered bytes,
  which are not empty, are the part of the written bytes that the Sink never observes.
\<close>

theorem destruction_discards_buffer:
  assumes "buffer_inv N s0" and "do_calls N s0 cs = Inr s" and "0 < curr s"
  shows "BufferedOStream_dtor s = fd s
    \<and> sink_bytes (BufferedOStream_dtor s) = sink_bytes (fd s)
    \<and> take (curr s) (buff s) \<noteq> []
    \<and> sink_bytes (BufferedOStream_dtor s) @ take (curr s) (buff s)
        = sink_bytes (fd s0) @ take (curr s0) (buff s0) @ concat (written cs)"
proof -
  obtain s1 where s1: "do_calls N s0 cs = Inr s1" "buffer_inv N s1"
      "sink_bytes (fd s1) @ take (curr s1) (buff s1)
         = sink_bytes (fd s0) @ take (curr s0) (buff s0) @ concat (written cs)"
    using do_calls_conserves [OF assms(1), of cs] by blast
  have eq: "s1 = s"
    using s1(1) assms(2) by simp
  have d: "BufferedOStream_dtor s = fd s"
    by (simp add: BufferedOStream_dtor_def OStream_dtor_def)
  have "length (take (curr s) (buff s)) = curr s"
    using buffer_invD [OF s1(2)] eq by simp
  then have ne: "take (curr s) (buff s) \<noteq> []"
    using assms(3) by auto
  show ?thesis
    using d ne s1(3) eq by simp
qed

theorem destruction_discards_buffer_witness:
  "buffer_inv 8 (BufferedOStream_from 8 [])
   \<and> do_calls 8 (BufferedOStream_from 8 []) [Write ''AB'']
       = Inr \<lparr>fd = [], buff = ''AB'' @ replicate 6 (CHR 0x00), curr = 2\<rparr>
   \<and> BufferedOStream_dtor \<lparr>fd = [], buff = ''AB'' @ replicate 6 (CHR 0x00), curr = 2\<rparr> = []
   \<and> take 2 (''AB'' @ replicate 6 (CHR 0x00)) = ''AB''"
proof -
  let ?s = "\<lparr>fd = [], buff = ''AB'' @ replicate 6 (CHR 0x00), curr = 2\<rparr>"
  have inv: "buffer_inv 8 (BufferedOStream_from 8 [])"
    by (simp add: buffer_inv_def BufferedOStream_from_def SIZE_MOD_def)
  have run: "do_calls 8 (BufferedOStream_from 8 []) [Write ''AB''] = Inr ?s"
    by (simp add: stream_defs Let_def)
  have pos: "0 < curr ?s"
    by simp
  show ?thesis
    using inv run destruction_discards_buffer [OF inv run pos]
    by simp
qed

text \<open>
  C10. Any sequence of \<open>write\<close> and \<open>flush\<close> calls and formatting operations on a
  \<open>NullOStream\<close> ends without an abort and returns the same stream, unchanged, so that
  its Sink has received nothing. The formatting operations are \<open>Flush\<close>, \<open>Endl\<close>, a
  character (\<open>char\<close>, \<open>char8_t\<close> or wide), an integer, a floating-point value, a pointer and
  a text view (\<open>string_view\<close>, \<open>u8string_view\<close> or \<open>wstring_view\<close>), whatever the conversion of
  floating-point values does and whatever the byte layout of wide text is.
\<close>

theorem null_stream_discards:
  "apply_operations to_chars_fp as_bytes_w (Null s) ops = Inr (Null s)"
  by (induction ops) (simp_all add: apply_operation_Null)

end
